theory Spec2Isabelle
  imports Main "HOL-Library.Sublist"
begin

section \<open>Python values used by the book inventory question answering program\<close>

subsection \<open>Strings\<close>

text \<open>
  A Python \<^verbatim>\<open>str\<close> is a sequence of Unicode code points, so a string is a list of
  natural numbers. \<open>u\<close> turns an ASCII literal into such a string. The operator
  \<^verbatim>\<open>sub in s\<close> on strings is \<^const>\<open>sublist\<close> (a contiguous occurrence).
\<close>

type_synonym str = "nat list"

definition u :: "string \<Rightarrow> str" where
  "u s = map of_char s"

definition NL :: nat where
  "NL = 10"

text \<open>
  \<^verbatim>\<open>str.strip()\<close> removes leading and trailing white space, where white space is
  what \<^verbatim>\<open>str.isspace\<close> accepts: U+0009..U+000D, U+001C..U+0020, U+0085, U+00A0,
  U+1680, U+2000..U+200A, U+2028, U+2029, U+202F, U+205F and U+3000.
\<close>

definition isspace :: "nat \<Rightarrow> bool" where
  "isspace c \<longleftrightarrow>
     (9 \<le> c \<and> c \<le> 13) \<or> (28 \<le> c \<and> c \<le> 32) \<or> c = 133 \<or> c = 160 \<or> c = 5760 \<or>
     (8192 \<le> c \<and> c \<le> 8202) \<or> c = 8232 \<or> c = 8233 \<or> c = 8239 \<or> c = 8287 \<or> c = 12288"

definition strip :: "str \<Rightarrow> str" where
  "strip s = rev (dropWhile isspace (rev (dropWhile isspace s)))"

text \<open>
  \<^verbatim>\<open>s.replace(old, new)\<close>: the occurrences of \<open>old\<close> are found from left to right and
  do not overlap; the text put in place of one is not searched again. With an empty
  \<open>old\<close>, Python puts \<open>new\<close> before every character and at the end.
\<close>

function replace :: "'a list \<Rightarrow> 'a list \<Rightarrow> 'a list \<Rightarrow> 'a list" where
  "replace old new s =
     (if old = [] then new @ concat (map (\<lambda>c. c # new) s)
      else if prefix old s then new @ replace old new (drop (length old) s)
      else (case s of [] \<Rightarrow> [] | c # cs \<Rightarrow> c # replace old new cs))"
  by pat_completeness auto
termination
  by (relation "measure (\<lambda>(old, new, s). length s)") (auto simp: prefix_def)

declare replace.simps [simp del]

text \<open>\<^verbatim>\<open>s.split(sep)\<close> for a separator of one character; \<^verbatim>\<open>''.split(sep)\<close> is \<^verbatim>\<open>['']\<close>.\<close>

fun split :: "'a \<Rightarrow> 'a list \<Rightarrow> 'a list list" where
  "split sep [] = [[]]"
| "split sep (c # cs) =
     (if c = sep then [] # split sep cs
      else (case split sep cs of [] \<Rightarrow> [[c]] | l # ls \<Rightarrow> (c # l) # ls))"

text \<open>\<^verbatim>\<open>sep.join(pieces)\<close>.\<close>

fun join :: "'a list \<Rightarrow> 'a list list \<Rightarrow> 'a list" where
  "join sep [] = []"
| "join sep [p] = p"
| "join sep (p # q # ps) = p @ sep @ join sep (q # ps)"

text \<open>\<^verbatim>\<open>str(n)\<close> for a natural number: its decimal digits.\<close>

fun decimal :: "nat \<Rightarrow> str" where
  "decimal n = (if n < 10 then [48 + n] else decimal (n div 10) @ [48 + n mod 10])"

declare decimal.simps [simp del]

subsection \<open>Exceptions\<close>

text \<open>
  The exceptions that the two entry points can raise or meet:
  \<^item> \<open>Exception msg\<close> is the built-in \<^verbatim>\<open>Exception(msg)\<close> that the program raises itself;
  \<^item> \<open>Error msg\<close> is a \<^verbatim>\<open>mysql.connector.Error\<close> whose text \<^verbatim>\<open>str(e)\<close> is \<open>msg\<close>;
  \<^item> \<open>OtherError msg\<close> is any other exception raised by a library or by the
    interpreter (an \<^verbatim>\<open>IndexError\<close>, a transport error of the model provider), with
    its text;
  \<^item> \<open>UnboundLocalError v\<close> is the read of the local variable \<open>v\<close> before any
    assignment to it.
\<close>

datatype exn =
    Exception str
  | Error str
  | OtherError str
  | UnboundLocalError string

fun message :: "exn \<Rightarrow> str" where
  "message (Exception msg) = msg"
| "message (Error msg) = msg"
| "message (OtherError msg) = msg"
| "message (UnboundLocalError v) =
     u ''local variable '' @ [39] @ u v @ [39] @ u '' referenced before assignment''"

section \<open>The example corpus (few\_shots.py)\<close>

record example =
  Question :: str
  SQLQuery :: str

definition few_shots :: "example list" where
  "few_shots =
    [\<lparr>Question = u ''How many copies of '1984' do we have in stock?'',
      SQLQuery = u ''SELECT stock_quantity FROM books WHERE title = '1984';''\<rparr>,
     \<lparr>Question = u ''What's the total value of all fantasy books?'',
      SQLQuery = u ''SELECT SUM(price * stock_quantity) AS total_value FROM books WHERE genre = 'Fantasy';''\<rparr>,
     \<lparr>Question = u ''Show me the total inventory value for books by J.K. Rowling.'',
      SQLQuery = u ''SELECT SUM(price * stock_quantity) AS total_value FROM books JOIN authors ON books.author_id = authors.author_id WHERE authors.name = 'J.K. Rowling';''\<rparr>,
     \<lparr>Question = u ''What is the average price of books by genre?'',
      SQLQuery = u ''SELECT genre, AVG(price) AS average_price FROM books GROUP BY genre;''\<rparr>,
     \<lparr>Question = u ''List all books with stock quantity less than 5.'',
      SQLQuery = u ''SELECT title FROM books WHERE stock_quantity < 5;''\<rparr>,
     \<lparr>Question = u ''How many books are there by each author?'',
      SQLQuery = u ''SELECT authors.name, COUNT(books.book_id) AS book_count FROM books JOIN authors ON books.author_id = authors.author_id GROUP BY authors.name;''\<rparr>,
     \<lparr>Question = u ''What are the titles of all mystery books?'',
      SQLQuery = u ''SELECT title FROM books WHERE genre = 'Mystery';''\<rparr>,
     \<lparr>Question = u ''Which author has the highest number of books in stock?'',
      SQLQuery = u ''SELECT authors.name FROM books JOIN authors ON books.author_id = authors.author_id GROUP BY authors.name ORDER BY SUM(books.stock_quantity) DESC LIMIT 1;''\<rparr>,
     \<lparr>Question = u ''What is the total revenue from all orders?'',
      SQLQuery = u ''SELECT SUM(total_amount) AS total_revenue FROM orders;''\<rparr>,
     \<lparr>Question = u ''List all orders placed in the last month.'',
      SQLQuery = u ''SELECT * FROM orders WHERE order_date >= DATE_SUB(CURDATE(), INTERVAL 1 MONTH);''\<rparr>]"

section \<open>SQLGenerator (main.py)\<close>

subsection \<open>initialize\_embeddings\_and\_selector\<close>

text \<open>The text embedded for every example of the corpus (the list \<^verbatim>\<open>texts\<close>).\<close>

definition example_text :: "example \<Rightarrow> str" where
  "example_text ex = u ''Question: '' @ Question ex @ u '' SQLQuery: '' @ SQLQuery ex"

definition texts :: "str list" where
  "texts = map example_text few_shots"

text \<open>The number of examples asked of the selector (\<^verbatim>\<open>k=2\<close>).\<close>

definition k :: nat where
  "k = 2"

text \<open>
  Modelled from the spec: the similarity search of the vector store and the example
  selector built on it are library code, absent from the sources. Section 4.1 of the
  specification gives their contract: the \<open>k\<close> examples whose text is closest to the
  question under the embedding's distance, closest first. The distance \<open>dist question text\<close>
  is a parameter, into any linear order; every stored text carries its corpus entry as
  metadata, and the entries of the \<open>k\<close> nearest texts are returned.
\<close>

definition select_examples :: "(str \<Rightarrow> str \<Rightarrow> 'd::linorder) \<Rightarrow> str \<Rightarrow> example list" where
  "select_examples dist question =
     map snd (take k (sort_key (\<lambda>(text, ex). dist question text) (zip texts few_shots)))"

subsection \<open>create\_prompt\_template\<close>

definition example_prompt :: "example \<Rightarrow> str" where
  "example_prompt ex = u ''Question: '' @ Question ex @ [NL] @ u ''SQL: '' @ SQLQuery ex"

definition prefix_text :: str where
  "prefix_text =
     u ''Convert the following question about book inventory into a SQL query.'' @ [NL] @
     u ''    Table: books (book_id, title, author_id, genre, price, stock_quantity)''"

definition suffix_text :: "str \<Rightarrow> str" where
  "suffix_text question = [NL] @ u ''Question: '' @ question @ [NL] @ u ''SQL:''"

definition example_separator :: str where
  "example_separator = [NL, NL]"

text \<open>
  Modelled from the spec: the rendering of a few-shot template is library code, absent
  from the sources. Section 4.2 of the specification gives it: the prefix, the rendered
  examples and the suffix holding the question, joined by the separator (empty pieces
  are left out). The values put in place of the fields are not interpreted again.
\<close>

definition FewShotPromptTemplate_format :: "str \<Rightarrow> str \<Rightarrow> example list \<Rightarrow> str \<Rightarrow> str" where
  "FewShotPromptTemplate_format pre sep examples question =
     join sep (filter (\<lambda>piece. piece \<noteq> []) (pre # map example_prompt examples @ [suffix_text question]))"

definition prompt_format :: "(str \<Rightarrow> str \<Rightarrow> 'd::linorder) \<Rightarrow> str \<Rightarrow> str" where
  "prompt_format dist question =
     FewShotPromptTemplate_format prefix_text example_separator (select_examples dist question) question"

subsection \<open>generate\_sql\<close>

text \<open>
  The request sent to the chat completion service, and the service itself: a call
  either raises or returns the text of the first choice of the response.
\<close>

record request =
  model :: str
  messages :: "(str \<times> str) list"

type_synonym chat_service = "request \<Rightarrow> exn + str"

definition chat_request :: "str \<Rightarrow> request" where
  "chat_request prompt =
     \<lparr>model = u ''gpt-3.5-turbo'',
      messages = [(u ''system'', u ''You are a helpful assistant.''), (u ''user'', prompt)]\<rparr>"

definition SELECT :: str where
  "SELECT = u ''SELECT''"

text \<open>Lines 108 and 109: the response text without the label artifacts.\<close>

definition clean_response :: "str \<Rightarrow> str" where
  "clean_response content =
     strip (replace (u ''SQL Query:'') [] (replace (u ''SQL Query:[/INST]'') [] (strip content)))"

text \<open>
  Lines 112 to 117. Reading element 0 of an empty list raises \<^verbatim>\<open>IndexError\<close>; the
  escape sequence \<^verbatim>\<open>'\_'\<close> of line 114 is the two characters backslash (92) and
  underscore (95).
\<close>

definition extract_query :: "str \<Rightarrow> exn + str" where
  "extract_query content =
     (let clean = clean_response content in
      if sublist SELECT clean then
        (case map strip (filter (sublist SELECT) (split NL clean)) of
           [] \<Rightarrow> Inl (OtherError (u ''list index out of range''))
         | query # _ \<Rightarrow> Inr (replace [92, 95] [95] query))
      else Inl (Exception (u ''No valid SQL query generated'')))"

text \<open>
  The whole method: the result, and the requests sent to the service in order. Every
  exception of the body is caught and raised again as an \<^verbatim>\<open>Exception\<close> with the
  text \<^verbatim>\<open>Error generating SQL: \<close> before its own.
\<close>

definition generate_sql ::
  "(str \<Rightarrow> str \<Rightarrow> 'd::linorder) \<Rightarrow> chat_service \<Rightarrow> str \<Rightarrow> (exn + str) \<times> request list" where
  "generate_sql dist ChatCompletion_create question =
     (let prompt = prompt_format dist question;
          req = chat_request prompt;
          body = (case ChatCompletion_create req of
                    Inl e \<Rightarrow> Inl e
                  | Inr content \<Rightarrow> extract_query content)
      in (case body of
            Inl e \<Rightarrow> Inl (Exception (u ''Error generating SQL: '' @ message e))
          | Inr query \<Rightarrow> Inr query,
          [req]))"

subsection \<open>What the extraction is to compute\<close>

text \<open>
  The steps of the extraction, stated without the program's functions. \<open>Stripped s r\<close>:
  \<open>r\<close> is \<open>s\<close> without the white space around it. \<open>Replaced old new s r\<close>: \<open>r\<close> is \<open>s\<close>
  with \<open>new\<close> in place of the occurrences of \<open>old\<close> that one pass from left to right
  finds, each search starting behind the occurrence found before. \<open>Lines s ls\<close>: \<open>ls\<close> are
  the lines of \<open>s\<close>. \<open>extracted content query\<close>: \<open>query\<close> is what the steps of lines 108
  to 115 make of the response \<open>content\<close>.
\<close>

definition Stripped :: "str \<Rightarrow> str \<Rightarrow> bool" where
  "Stripped s r \<longleftrightarrow>
     (\<exists>a b. s = a @ r @ b \<and> (\<forall>c\<in>set a. isspace c) \<and> (\<forall>c\<in>set b. isspace c)) \<and>
     (r = [] \<or> (\<not> isspace (hd r) \<and> \<not> isspace (last r)))"

inductive Replaced :: "'a list \<Rightarrow> 'a list \<Rightarrow> 'a list \<Rightarrow> 'a list \<Rightarrow> bool"
  for old new :: "'a list" where
  no_occurrence: "\<not> sublist old s \<Longrightarrow> Replaced old new s s"
| first_occurrence:
    "\<not> sublist old (p @ butlast old) \<Longrightarrow> Replaced old new t r \<Longrightarrow>
     Replaced old new (p @ old @ t) (p @ new @ r)"

definition Lines :: "str \<Rightarrow> str list \<Rightarrow> bool" where
  "Lines s ls \<longleftrightarrow> ls \<noteq> [] \<and> join [NL] ls = s \<and> (\<forall>l\<in>set ls. NL \<notin> set l)"

definition extracted :: "str \<Rightarrow> str \<Rightarrow> bool" where
  "extracted content query \<longleftrightarrow>
     (\<exists>c1 c2 c3 c4 before line after stripped.
        Stripped content c1 \<and>
        Replaced (u ''SQL Query:[/INST]'') [] c1 c2 \<and>
        Replaced (u ''SQL Query:'') [] c2 c3 \<and>
        Stripped c3 c4 \<and>
        Lines c4 (before @ line # after) \<and>
        (\<forall>l\<in>set before. \<not> sublist SELECT l) \<and> sublist SELECT line \<and>
        Stripped line stripped \<and>
        Replaced [92, 95] [95] stripped query)"

subsection \<open>execute\_sql\_query\<close>

text \<open>
  A result table is kept as the arguments given to \<^verbatim>\<open>pd.DataFrame\<close>: the rows, and
  the column labels when the call passes \<^verbatim>\<open>columns=\<close>. \<open>DataFrame [] None\<close> is the
  empty table without column headers.
\<close>

datatype 'v DataFrame = DataFrame (data: "'v list list") (columns: "str list option")

text \<open>
  The column headers of a table: the labels given, or, when none were given, the
  positions \<open>0, 1, \<dots>\<close> of the columns that the rows have (none for a table without
  rows).
\<close>

datatype label = Name str | Position nat

definition labels :: "'v DataFrame \<Rightarrow> label list" where
  "labels df =
     (case columns df of
        Some cs \<Rightarrow> map Name cs
      | None \<Rightarrow> map Position [0..<foldr max (map length (data df)) 0])"

text \<open>
  The constructor \<^verbatim>\<open>pd.DataFrame\<close> is library code. When column labels are passed
  and there are rows, it raises a \<^verbatim>\<open>ValueError\<close> unless the number of labels is the
  width of the rows (the length of the longest one); without labels, and without rows,
  it returns. A \<^verbatim>\<open>return\<close> statement gives the value of its expression to the
  caller, or raises what the expression raises.
\<close>

definition pd_DataFrame :: "'v list list \<Rightarrow> str list option \<Rightarrow> exn + 'v DataFrame" where
  "pd_DataFrame rows cols =
     (case cols of
        None \<Rightarrow> Inr (DataFrame rows None)
      | Some cs \<Rightarrow>
          if rows \<noteq> [] \<and> foldr max (map length rows) 0 \<noteq> length cs then
            Inl (OtherError (decimal (length cs) @ u '' columns passed, passed data had '' @
                             decimal (foldr max (map length rows) 0) @ u '' columns''))
          else Inr (DataFrame rows (Some cs)))"

fun returns :: "exn + 'a \<Rightarrow> exn + 'a option" where
  "returns (Inl e) = Inl e"
| "returns (Inr v) = Inr (Some v)"

text \<open>
  The database driver is outside the program. One call of the method meets each driver
  operation at most once, so the driver is given by the outcome of each operation:
  \<open>None\<close> for an operation that returns, \<open>Some e\<close> for one that raises \<open>e\<close>.
  \<^verbatim>\<open>is_connected()\<close> is asked twice, at line 132 and in the \<^verbatim>\<open>finally\<close> block at
  line 147. Every entry of \<^verbatim>\<open>cursor.description\<close> is a tuple that starts with the
  column name; its type code stands for the rest.
\<close>

record 'v driver =
  connect :: "exn option"
  is_connected_try :: bool
  cursor :: "exn option"
  execute :: "exn option"
  fetchall :: "exn + 'v list list"
  description :: "(str \<times> nat) list option"
  is_connected_finally :: bool
  cursor_close :: "exn option"
  connection_close :: "exn option"

datatype call =
    Connect
  | IsConnected
  | Cursor
  | Execute str
  | Fetchall
  | CursorClose
  | ConnectionClose

text \<open>The local variables that the \<^verbatim>\<open>finally\<close> block reads, and the driver calls made.\<close>

record frame =
  connection_bound :: bool
  cursor_bound :: bool
  calls :: "call list"

text \<open>
  Lines 130 to 141, the body of \<^verbatim>\<open>try\<close>. When the connection is not connected the
  body ends without a \<^verbatim>\<open>return\<close>: the value of the call is \<^verbatim>\<open>None\<close>, here
  \<open>Inr None\<close>. \<^verbatim>\<open>if cursor.description:\<close> tests truth, which \<^verbatim>\<open>None\<close> and the empty
  list both fail. The two \<^verbatim>\<open>return\<close> statements build the table, which can raise.
\<close>

definition try_body :: "'v driver \<Rightarrow> str \<Rightarrow> (exn + 'v DataFrame option) \<times> frame" where
  "try_body d query =
     (case connect d of
        Some e \<Rightarrow>
          (Inl e, \<lparr>connection_bound = False, cursor_bound = False, calls = [Connect]\<rparr>)
      | None \<Rightarrow>
          if is_connected_try d then
            (case cursor d of
               Some e \<Rightarrow>
                 (Inl e, \<lparr>connection_bound = True, cursor_bound = False,
                          calls = [Connect, IsConnected, Cursor]\<rparr>)
             | None \<Rightarrow>
                 (case execute d of
                    Some e \<Rightarrow>
                      (Inl e, \<lparr>connection_bound = True, cursor_bound = True,
                               calls = [Connect, IsConnected, Cursor, Execute query]\<rparr>)
                  | None \<Rightarrow>
                      (case fetchall d of
                         Inl e \<Rightarrow>
                           (Inl e, \<lparr>connection_bound = True, cursor_bound = True,
                                    calls = [Connect, IsConnected, Cursor, Execute query, Fetchall]\<rparr>)
                       | Inr results \<Rightarrow>
                           ((case description d of
                               None \<Rightarrow> returns (pd_DataFrame results None)
                             | Some desc \<Rightarrow>
                                 if desc \<noteq> [] then
                                   returns (pd_DataFrame results (Some (map fst desc)))
                                 else returns (pd_DataFrame results None)),
                            \<lparr>connection_bound = True, cursor_bound = True,
                             calls = [Connect, IsConnected, Cursor, Execute query, Fetchall]\<rparr>))))
          else
            (Inr None, \<lparr>connection_bound = True, cursor_bound = False,
                        calls = [Connect, IsConnected]\<rparr>))"

text \<open>Lines 143 and 144: only a \<^verbatim>\<open>mysql.connector.Error\<close> is caught.\<close>

fun except_Error :: "exn + 'a \<Rightarrow> exn + 'a" where
  "except_Error (Inl (Error msg)) = Inl (Exception (u ''Database Error: '' @ msg))"
| "except_Error r = r"

text \<open>
  Lines 145 to 149: what the \<^verbatim>\<open>finally\<close> block raises, if anything, and the driver
  calls it makes. \<^verbatim>\<open>cursor.close()\<close> reads the local variable \<^verbatim>\<open>cursor\<close>.
\<close>

definition finally_block :: "'v driver \<Rightarrow> frame \<Rightarrow> exn option \<times> call list" where
  "finally_block d fr =
     (if connection_bound fr then
        if is_connected_finally d then
          if cursor_bound fr then
            (case cursor_close d of
               Some e \<Rightarrow> (Some e, [IsConnected, CursorClose])
             | None \<Rightarrow>
                 (case connection_close d of
                    Some e \<Rightarrow> (Some e, [IsConnected, CursorClose, ConnectionClose])
                  | None \<Rightarrow> (None, [IsConnected, CursorClose, ConnectionClose])))
          else (Some (UnboundLocalError ''cursor''), [IsConnected])
        else (None, [IsConnected])
      else (None, []))"

text \<open>
  The whole method. An exception raised by the \<^verbatim>\<open>finally\<close> block takes the place of
  the pending return value or exception.
\<close>

record 'v completion =
  outcome :: "exn + 'v DataFrame option"
  driver_calls :: "call list"

definition execute_sql_query :: "'v driver \<Rightarrow> str \<Rightarrow> 'v completion" where
  "execute_sql_query d query =
     (let (r, fr) = try_body d query;
          pending = except_Error r;
          (raised, cs) = finally_block d fr
      in \<lparr>outcome = (case raised of Some e \<Rightarrow> Inl e | None \<Rightarrow> pending),
          driver_calls = calls fr @ cs\<rparr>)"

text \<open>
  A connection is opened when \<^verbatim>\<open>connect\<close> returns. It is released when
  \<^verbatim>\<open>connection.close()\<close> was called and returned, or when the connection itself
  reported in the \<^verbatim>\<open>finally\<close> block that it is no longer connected.
\<close>

definition opened :: "'v driver \<Rightarrow> bool" where
  "opened d \<longleftrightarrow> connect d = None"

definition released :: "'v driver \<Rightarrow> 'v completion \<Rightarrow> bool" where
  "released d c \<longleftrightarrow>
     (ConnectionClose \<in> set (driver_calls c) \<and> connection_close d = None) \<or> \<not> is_connected_finally d"

text \<open>The \<^verbatim>\<open>finally\<close> block of a call that reached \<^verbatim>\<open>cursor.execute\<close> raises nothing.\<close>

definition cleanup_completes :: "'v driver \<Rightarrow> bool" where
  "cleanup_completes d \<longleftrightarrow>
     (if is_connected_finally d then cursor_close d = None \<and> connection_close d = None else True)"

text \<open>
  A driver on which every operation returns: the rows \<open>rows\<close> under the description
  \<open>desc\<close>, on a connection that stays connected.
\<close>

definition healthy :: "'v list list \<Rightarrow> (str \<times> nat) list option \<Rightarrow> 'v driver" where
  "healthy rows desc =
     \<lparr>connect = None, is_connected_try = True, cursor = None, execute = None,
      fetchall = Inr rows, description = desc, is_connected_finally = True,
      cursor_close = None, connection_close = None\<rparr>"

section \<open>The query history of the page (app.py)\<close>

text \<open>
  Lines 153 to 164. The history is a list of pairs (question, SQL) kept in the session.
  The local variable \<^verbatim>\<open>sql_query\<close> of \<^verbatim>\<open>main\<close> is bound only when the question is
  not empty and \<^verbatim>\<open>generate_sql\<close> returned; line 158 reads it.
\<close>

type_synonym history = "(str \<times> str) list"

definition update_history :: "history \<Rightarrow> str \<Rightarrow> str option \<Rightarrow> exn + history" where
  "update_history query_history question sql_query =
     (if question \<noteq> [] \<and> question \<notin> set (map fst query_history) then
        (case sql_query of
           None \<Rightarrow> Inl (UnboundLocalError ''sql_query'')
         | Some sql \<Rightarrow> Inr (query_history @ [(question, sql)]))
      else Inr query_history)"

text \<open>Line 161: \<^verbatim>\<open>reversed(query_history[-5:])\<close>, the entries that the page shows.\<close>

definition shown :: "history \<Rightarrow> history" where
  "shown query_history = rev (drop (length query_history - 5) query_history)"

text \<open>
  One run of the page: the question typed, and what \<^verbatim>\<open>generate_sql\<close> did with it. A
  run stopped by an exception leaves the history of the session as it was.
\<close>

definition run :: "history \<Rightarrow> str \<times> (exn + str) \<Rightarrow> history" where
  "run query_history r =
     (let question = fst r;
          sql_query = (if question \<noteq> [] then (case snd r of Inl e \<Rightarrow> None | Inr sql \<Rightarrow> Some sql)
                       else None)
      in case update_history query_history question sql_query of
           Inl e \<Rightarrow> query_history
         | Inr h \<Rightarrow> h)"

definition session :: "(str \<times> (exn + str)) list \<Rightarrow> history" where
  "session rs = foldl run [] rs"

text \<open>
  The questions of a session that got a query, each with the query: the runs with a
  question and a generated query, and of these the first one for every question.
\<close>

fun successful :: "(str \<times> (exn + str)) list \<Rightarrow> history" where
  "successful [] = []"
| "successful ((question, Inl e) # rs) = successful rs"
| "successful ((question, Inr sql) # rs) =
     (if question = [] then successful rs else (question, sql) # successful rs)"

fun first_per_question :: "history \<Rightarrow> history" where
  "first_per_question [] = []"
| "first_per_question (p # ps) = p # first_per_question (filter (\<lambda>q. fst q \<noteq> fst p) ps)"

section \<open>Inputs used in the examples\<close>

text \<open>
  Chat services that answer every request with one text, or fail on every request, and
  a coarse distance between a question and a stored text.
\<close>

definition canned_reply :: "str \<Rightarrow> chat_service" where
  "canned_reply content req = Inr content"

definition failing_service :: "exn \<Rightarrow> chat_service" where
  "failing_service e req = Inl e"

definition text_length :: "str \<Rightarrow> str \<Rightarrow> nat" where
  "text_length question text = length text"

text \<open>
  Three responses of the model: a query under a label with an escaped underscore, a
  response in which the label stands inside the word SELECT, and one without a query.
\<close>

definition reply_with_label :: str where
  "reply_with_label =
     u ''Here is the query:'' @ [NL] @
     u ''SQL Query: SELECT stock'' @ [92, 95] @ u ''quantity FROM books;  '' @ [NL] @
     u ''SELECT 2''"



text \<open>
  Two more responses: one in which the removal of a label brings a label together, and
  one with two backslashes before an underscore.
\<close>

definition reply_label_left :: str where
  "reply_label_left = u ''SQL QSQL Query:uery: SELECT 1''"

definition reply_escape_left :: str where
  "reply_escape_left = u ''SELECT a'' @ [92, 92, 95] @ u ''b''"

text \<open>
  Drivers: a result set with two rows, one with none, and drivers on which one
  operation fails.
\<close>

definition mystery_titles :: "str driver" where
  "mystery_titles =
     healthy [[u ''Gone Girl''], [u ''The Hound of the Baskervilles'']] (Some [(u ''title'', 253)])"

definition no_matching_rows :: "str driver" where
  "no_matching_rows = healthy [] (Some [(u ''title'', 253)])"

definition not_connected :: "nat driver" where
  "not_connected = (healthy [] None)\<lparr>is_connected_try := False, is_connected_finally := False\<rparr>"

definition cursor_fails :: "nat driver" where
  "cursor_fails = (healthy [] None)\<lparr>cursor := Some (Error (u ''MySQL Connection not available.''))\<rparr>"

definition cursor_close_fails :: "nat driver" where
  "cursor_close_fails =
     (healthy [] None)\<lparr>execute := Some (Error (u ''Use multi=True when executing multiple statements'')),
                        cursor_close := Some (Error (u ''Unread result found''))\<rparr>"

text \<open>
  Drivers on which an operation raises an exception that is not a database error, and
  then \<^verbatim>\<open>cursor.close()\<close> fails on the rows left unread.
\<close>

definition fetch_interrupted :: "nat driver" where
  "fetch_interrupted =
     (healthy [] None)\<lparr>fetchall := Inl (OtherError (u ''MemoryError'')),
                        cursor_close := Some (Error (u ''Unread result found''))\<rparr>"

definition execute_interrupted :: "nat driver" where
  "execute_interrupted =
     (healthy [] None)\<lparr>execute := Some (OtherError (u ''KeyError'')),
                        cursor_close := Some (Error (u ''Unread result found''))\<rparr>"

text \<open>A driver whose rows are wider than the description of the cursor.\<close>

definition wide_rows :: "nat driver" where
  "wide_rows = healthy [[1, 2]] (Some [(u ''title'', 253)])"

text \<open>
  Six runs of the page with six different questions.
\<close>

definition six_questions :: "(str \<times> (exn + str)) list" where
  "six_questions =
     [(u ''q1'', Inr (u ''SELECT 1'')), (u ''q2'', Inr (u ''SELECT 2'')),
      (u ''q3'', Inr (u ''SELECT 3'')), (u ''q4'', Inr (u ''SELECT 4'')),
      (u ''q5'', Inr (u ''SELECT 5'')), (u ''q6'', Inr (u ''SELECT 6''))]"

section \<open>Properties of the string operations\<close>

lemma split_not_Nil: "split sep s \<noteq> []"
  by (induction s) (auto split: list.splits)

lemma split_line_no_sep: "l \<in> set (split sep s) \<Longrightarrow> sep \<notin> set l"
  by (induction s arbitrary: l) (auto split: if_splits list.splits)

lemma prefix_hd_split: "prefix sub s \<Longrightarrow> sep \<notin> set sub \<Longrightarrow> prefix sub (hd (split sep s))"
proof (induction s arbitrary: sub)
  case Nil
  then show ?case by simp
next
  case (Cons c cs)
  show ?case
  proof (cases sub)
    case Nil
    then show ?thesis by simp
  next
    case (Cons x xs)
    with Cons.prems have eq: "x = c" and p: "prefix xs cs" and n: "sep \<notin> set xs" and ne: "c \<noteq> sep"
      by auto
    from Cons.IH [OF p n] have "prefix xs (hd (split sep cs))" .
    with eq ne Cons split_not_Nil [of sep cs] show ?thesis
      by (auto split: list.splits)
  qed
qed

lemma sublist_split:
  "sublist sub s \<Longrightarrow> sep \<notin> set sub \<Longrightarrow> \<exists>l\<in>set (split sep s). sublist sub l"
proof (induction s)
  case Nil
  then show ?case by simp
next
  case (Cons c cs)
  from Cons.prems(1) have "prefix sub (c # cs) \<or> sublist sub cs"
    by (simp add: sublist_Cons_right)
  then show ?case
  proof
    assume "prefix sub (c # cs)"
    from prefix_hd_split [OF this Cons.prems(2)]
    have "sublist sub (hd (split sep (c # cs)))" by (rule prefix_imp_sublist)
    moreover have "hd (split sep (c # cs)) \<in> set (split sep (c # cs))"
      using split_not_Nil [of sep "c # cs"] by (intro hd_in_set)
    ultimately show ?thesis by blast
  next
    assume "sublist sub cs"
    from Cons.IH [OF this Cons.prems(2)] obtain l where l: "l \<in> set (split sep cs)" "sublist sub l"
      by blast
    show ?thesis
    proof (cases "c = sep")
      case True
      with l show ?thesis by auto
    next
      case False
      obtain h t where ht: "split sep cs = h # t"
        using split_not_Nil [of sep cs] by (cases "split sep cs") auto
      from l ht have "l = h \<or> l \<in> set t" by auto
      then show ?thesis
      proof
        assume "l = h"
        with l(2) have "sublist sub (c # h)" by (simp add: sublist_Cons_right)
        with False ht show ?thesis by auto
      next
        assume "l \<in> set t"
        with False ht l(2) show ?thesis by auto
      qed
    qed
  qed
qed

lemma set_strip: "set (strip s) \<subseteq> set s"
proof
  fix x
  assume "x \<in> set (strip s)"
  then have "x \<in> set (dropWhile isspace (rev (dropWhile isspace s)))"
    by (simp add: strip_def)
  then have "x \<in> set (rev (dropWhile isspace s))"
    by (rule set_dropWhileD)
  then have "x \<in> set (dropWhile isspace s)"
    by simp
  then show "x \<in> set s"
    by (rule set_dropWhileD)
qed

lemma set_replace: "set (replace old new s) \<subseteq> set s \<union> set new"
proof (induction old new s rule: replace.induct)
  case (1 old new s)
  show ?case
  proof (cases "old = []")
    case True
    then show ?thesis by (subst replace.simps) auto
  next
    case ne: False
    show ?thesis
    proof (cases "prefix old s")
      case True
      from "1.IH"(1) [OF ne True] have "set (replace old new (drop (length old) s)) \<subseteq> set (drop (length old) s) \<union> set new" .
      moreover have "set (drop (length old) s) \<subseteq> set s" by (rule set_drop_subset)
      ultimately show ?thesis using ne True by (subst replace.simps) auto
    next
      case False
      show ?thesis
      proof (cases s)
        case Nil
        with ne False show ?thesis by (subst replace.simps) simp
      next
        case (Cons c cs)
        from "1.IH"(2) [OF ne False Cons] have "set (replace old new cs) \<subseteq> set cs \<union> set new" .
        with ne False Cons show ?thesis by (subst replace.simps) auto
      qed
    qed
  qed
qed

lemma strip_Stripped: "Stripped s (strip s)"
proof -
  define m where "m = dropWhile isspace s"
  define a where "a = takeWhile isspace s"
  define b where "b = rev (takeWhile isspace (rev m))"
  have r: "strip s = rev (dropWhile isspace (rev m))"
    by (simp add: strip_def m_def)
  have s: "s = a @ m" by (simp add: a_def m_def)
  have "rev (takeWhile isspace (rev m) @ dropWhile isspace (rev m)) = m" by simp
  then have "rev (dropWhile isspace (rev m)) @ rev (takeWhile isspace (rev m)) = m"
    by (simp only: rev_append)
  then have m: "m = strip s @ b" by (simp only: r b_def)
  have sa: "\<forall>c\<in>set a. isspace c" unfolding a_def by (auto dest: set_takeWhileD)
  have sb: "\<forall>c\<in>set b. isspace c" unfolding b_def by (auto dest: set_takeWhileD)
  have ends: "\<not> isspace (hd (strip s)) \<and> \<not> isspace (last (strip s))" if ne: "strip s \<noteq> []"
  proof
    from ne m have "m \<noteq> []" by auto
    then have "\<not> isspace (hd m)" unfolding m_def by (rule hd_dropWhile)
    moreover from ne m have "hd m = hd (strip s)" by (metis hd_append2)
    ultimately show "\<not> isspace (hd (strip s))" by simp
  next
    from ne have d: "dropWhile isspace (rev m) \<noteq> []" by (simp add: r)
    then have "\<not> isspace (hd (dropWhile isspace (rev m)))" by (rule hd_dropWhile)
    moreover from d have "last (strip s) = hd (dropWhile isspace (rev m))"
      by (simp add: r last_rev)
    ultimately show "\<not> isspace (last (strip s))" by simp
  qed
  from s m have "s = a @ strip s @ b" by simp
  with sa sb ends show ?thesis unfolding Stripped_def by blast
qed

lemma not_sublist_butlast: "old \<noteq> [] \<Longrightarrow> \<not> sublist old (butlast old)"
proof
  assume ne: "old \<noteq> []" and "sublist old (butlast old)"
  then have A: "length old \<le> length (butlast old)" by (intro sublist_length_le)
  have B: "length (butlast old) = length old - 1" by (rule length_butlast)
  from ne have C: "0 < length old" by (rule length_greater_0_conv [THEN iffD2])
  from A B C show False by linarith
qed

lemma Replaced_Cons:
  assumes "\<not> prefix old (c # s)" and "Replaced old new s r"
  shows "Replaced old new (c # s) (c # r)"
  using assms(2)
proof (cases rule: Replaced.cases)
  case no_occurrence
  with assms(1) have "\<not> sublist old (c # s)" by (simp add: sublist_Cons_right)
  with no_occurrence show ?thesis by (auto intro: Replaced.no_occurrence)
next
  case (first_occurrence p t r')
  have "\<not> sublist old ((c # p) @ butlast old)"
  proof
    assume "sublist old ((c # p) @ butlast old)"
    then have "prefix old (c # (p @ butlast old)) \<or> sublist old (p @ butlast old)"
      by (simp add: sublist_Cons_right)
    with first_occurrence(3) have pre: "prefix old (c # (p @ butlast old))" by simp
    have "old \<noteq> []" using assms(1) by auto
    then have "old @ t = butlast old @ ([last old] @ t)" by simp
    then have "prefix (butlast old) (old @ t)" by (rule prefixI)
    then have "prefix (c # (p @ butlast old)) (c # (p @ old @ t))"
      by simp
    with pre have "prefix old (c # (p @ old @ t))" by (rule prefix_order.trans)
    with assms(1) first_occurrence(1) show False by simp
  qed
  from Replaced.first_occurrence [OF this first_occurrence(4)] first_occurrence(1,2)
  show ?thesis by simp
qed

lemma replace_Replaced: "old \<noteq> [] \<Longrightarrow> Replaced old new s (replace old new s)"
proof (induction old new s rule: replace.induct)
  case (1 old new s)
  show ?case
  proof (cases "prefix old s")
    case True
    then have s: "s = [] @ old @ drop (length old) s" by (auto simp: prefix_def)
    have r: "replace old new s = [] @ new @ replace old new (drop (length old) s)"
      using "1.prems" True by (subst replace.simps) simp
    have "\<not> sublist old ([] @ butlast old)"
      using not_sublist_butlast [OF "1.prems"] by simp
    from Replaced.first_occurrence [OF this "1.IH"(1) [OF "1.prems" True "1.prems"]]
    show ?thesis by (subst r, subst (1) s) simp
  next
    case False
    show ?thesis
    proof (cases s)
      case Nil
      with "1.prems" show ?thesis
        by (subst replace.simps) (auto intro: Replaced.no_occurrence)
    next
      case (Cons c cs)
      have r: "replace old new s = c # replace old new cs"
        using "1.prems" False Cons by (subst replace.simps) simp
      from Replaced_Cons [of old c cs new, OF _ "1.IH"(2) [OF "1.prems" False Cons "1.prems"]] False Cons
      have "Replaced old new (c # cs) (c # replace old new cs)" by simp
      then show ?thesis using r Cons by simp
    qed
  qed
qed

lemma join_Cons_hd: "join sep ((c # l) # ls) = c # join sep (l # ls)"
  by (cases ls) simp_all

lemma join_split: "join [sep] (split sep s) = s"
proof (induction s)
  case Nil
  then show ?case by simp
next
  case (Cons c cs)
  obtain l ls where ls: "split sep cs = l # ls"
    using split_not_Nil [of sep cs] by (cases "split sep cs") auto
  with Cons show ?case by (cases ls) auto
qed

lemma split_Lines: "Lines s (split NL s)"
  unfolding Lines_def
  by (auto simp: split_not_Nil join_split dest: split_line_no_sep)

lemmas str_eval =
  u_def NL_def SELECT_def strip_def isspace_def clean_response_def extract_query_def
  replace.simps sublist_code Let_def

section \<open>Properties of generate\_sql\<close>

lemma fst_generate_sql:
  "fst (generate_sql dist chat question) =
     (case chat (chat_request (prompt_format dist question)) of
        Inl e \<Rightarrow> Inl (Exception (u ''Error generating SQL: '' @ message e))
      | Inr content \<Rightarrow>
          (case extract_query content of
             Inl e \<Rightarrow> Inl (Exception (u ''Error generating SQL: '' @ message e))
           | Inr query \<Rightarrow> Inr query))"
  by (simp add: generate_sql_def Let_def split: sum.splits)

lemma snd_generate_sql:
  "snd (generate_sql dist chat question) = [chat_request (prompt_format dist question)]"
  by (simp add: generate_sql_def Let_def)

lemma NL_notin_SELECT: "NL \<notin> set SELECT"
  by (simp add: SELECT_def NL_def u_def)

lemma extract_query_first_line:
  assumes "sublist SELECT (clean_response content)"
  shows "\<exists>before line after.
           split NL (clean_response content) = before @ line # after \<and>
           (\<forall>l\<in>set before. \<not> sublist SELECT l) \<and> sublist SELECT line \<and>
           extract_query content = Inr (replace [92, 95] [95] (strip line))"
proof -
  from sublist_split [OF assms NL_notin_SELECT]
  have "filter (sublist SELECT) (split NL (clean_response content)) \<noteq> []"
    by (simp add: filter_empty_conv)
  then obtain line rest where f: "filter (sublist SELECT) (split NL (clean_response content)) = line # rest"
    by (cases "filter (sublist SELECT) (split NL (clean_response content))") auto
  then obtain before after where
    "split NL (clean_response content) = before @ line # after"
    "\<forall>l\<in>set before. \<not> sublist SELECT l" "sublist SELECT line"
    unfolding filter_eq_Cons_iff by blast
  moreover from assms f have "extract_query content = Inr (replace [92, 95] [95] (strip line))"
    by (simp add: extract_query_def Let_def)
  ultimately show ?thesis by blast
qed

lemma line_result_no_NL:
  assumes "split NL s = before @ line # after"
  shows "NL \<notin> set (replace [92, 95] [95] (strip line))"
proof -
  have "line \<in> set (split NL s)" using assms by simp
  then have "NL \<notin> set line" by (rule split_line_no_sep)
  moreover have "set (replace [92, 95] [95] (strip line)) \<subseteq> set (strip line) \<union> set [95]"
    by (rule set_replace)
  moreover have "set (strip line) \<subseteq> set line" by (rule set_strip)
  ultimately show ?thesis by (auto simp: NL_def)
qed

lemma sublist_reply_with_label: "sublist SELECT (clean_response reply_with_label)"
  by (simp add: reply_with_label_def str_eval)

lemma extract_reply_with_label:
  "extract_query reply_with_label = Inr (u ''SELECT stock_quantity FROM books;'')"
  by (simp add: reply_with_label_def str_eval)





lemma extract_label_left: "extract_query reply_label_left = Inr (u ''SQL Query: SELECT 1'')"
  by (simp add: reply_label_left_def str_eval)

lemma extract_escape_left: "extract_query reply_escape_left = Inr (u ''SELECT a'' @ [92, 95] @ u ''b'')"
  by (simp add: reply_escape_left_def str_eval)

text \<open>
  Claim C1, as stated, fails: each removal is one pass from left to right over the
  text, and what a pass puts together it does not see. For the response
  \<^verbatim>\<open>SQL QSQL Query:uery: SELECT 1\<close> the query returned still begins with the label
  \<^verbatim>\<open>SQL Query:\<close>, and for a line with two backslashes before an underscore the query
  returned still has a backslash before the underscore.
\<close>

theorem generate_sql_label_left_counterexample:
  "fst (generate_sql text_length (canned_reply reply_label_left) (u ''How many copies?'')) =
     Inr (u ''SQL Query: SELECT 1'') \<and>
   sublist (u ''SQL Query:'') (u ''SQL Query: SELECT 1'') \<and>
   fst (generate_sql text_length (canned_reply reply_escape_left) (u ''How many copies?'')) =
     Inr (u ''SELECT a'' @ [92, 95] @ u ''b'') \<and>
   sublist [92, 95] (u ''SELECT a'' @ [92, 95] @ u ''b'')"
  by (simp add: fst_generate_sql canned_reply_def extract_label_left extract_escape_left)
     (simp add: u_def sublist_code)

text \<open>
  Claim C1, amended. When the response of the model, with the labels removed, contains
  SELECT, \<^verbatim>\<open>generate_sql\<close> returns a query that is \<open>extracted\<close> from the response:
  the response is stripped; the occurrences of \<^verbatim>\<open>SQL Query:[/INST]\<close> and then those of
  \<^verbatim>\<open>SQL Query:\<close> that one pass from left to right finds are removed; the result is
  stripped; of its lines the first that contains SELECT is taken and stripped; and the
  occurrences of backslash-underscore that one pass finds in it are replaced by an
  underscore. The query returned contains no newline character.
\<close>

theorem generate_sql_extraction:
  assumes "chat (chat_request (prompt_format dist question)) = Inr content"
      and "sublist SELECT (clean_response content)"
  shows "\<exists>query. fst (generate_sql dist chat question) = Inr query \<and>
           extracted content query \<and> NL \<notin> set query"
proof -
  from extract_query_first_line [OF assms(2)] obtain before line after where
    s: "split NL (clean_response content) = before @ line # after" and
    b: "\<forall>l\<in>set before. \<not> sublist SELECT l" and l: "sublist SELECT line" and
    e: "extract_query content = Inr (replace [92, 95] [95] (strip line))"
    by blast
  define c1 where "c1 = strip content"
  define c2 where "c2 = replace (u ''SQL Query:[/INST]'') [] c1"
  define c3 where "c3 = replace (u ''SQL Query:'') [] c2"
  define c4 where "c4 = strip c3"
  have c4: "c4 = clean_response content"
    by (simp add: c4_def c3_def c2_def c1_def clean_response_def)
  have "Stripped content c1" unfolding c1_def by (rule strip_Stripped)
  moreover have "Replaced (u ''SQL Query:[/INST]'') [] c1 c2"
    unfolding c2_def by (rule replace_Replaced) (simp add: u_def)
  moreover have "Replaced (u ''SQL Query:'') [] c2 c3"
    unfolding c3_def by (rule replace_Replaced) (simp add: u_def)
  moreover have "Stripped c3 c4" unfolding c4_def by (rule strip_Stripped)
  moreover have "Lines c4 (before @ line # after)"
    using split_Lines [of c4] s by (simp add: c4)
  moreover have "Stripped line (strip line)" by (rule strip_Stripped)
  moreover have "Replaced [92, 95] [95] (strip line) (replace [92, 95] [95] (strip line))"
    by (rule replace_Replaced) simp
  ultimately have "extracted content (replace [92, 95] [95] (strip line))"
    unfolding extracted_def using b l by blast
  moreover from assms(1) e
  have "fst (generate_sql dist chat question) = Inr (replace [92, 95] [95] (strip line))"
    by (simp add: fst_generate_sql)
  moreover note line_result_no_NL [OF s]
  ultimately show ?thesis by blast
qed

theorem generate_sql_extraction_witness:
  "canned_reply reply_with_label (chat_request (prompt_format text_length (u ''How many copies?''))) =
     Inr reply_with_label \<and>
   sublist SELECT (clean_response reply_with_label) \<and>
   (\<exists>query. fst (generate_sql text_length (canned_reply reply_with_label) (u ''How many copies?'')) =
      Inr query \<and> extracted reply_with_label query \<and> NL \<notin> set query) \<and>
   fst (generate_sql text_length (canned_reply reply_with_label) (u ''How many copies?'')) =
     Inr (u ''SELECT stock_quantity FROM books;'')"
proof -
  have h1: "canned_reply reply_with_label (chat_request (prompt_format text_length (u ''How many copies?''))) =
      Inr reply_with_label"
    by (simp add: canned_reply_def)
  have h2: "sublist SELECT (clean_response reply_with_label)"
    by (rule sublist_reply_with_label)
  have r: "fst (generate_sql text_length (canned_reply reply_with_label) (u ''How many copies?'')) =
     Inr (u ''SELECT stock_quantity FROM books;'')"
    by (simp add: fst_generate_sql canned_reply_def extract_reply_with_label)
  from generate_sql_extraction
         [of "canned_reply reply_with_label" text_length "u ''How many copies?''" reply_with_label, OF h1 h2]
       h1 h2 r
  show ?thesis by blast
qed




section \<open>Properties of the example selector and of the prompt\<close>

lemma texts_eq: "texts = map example_text few_shots"
  by (simp add: texts_def example_text_def)

lemma length_few_shots: "length few_shots = 10"
  by (simp add: few_shots_def)

lemma corpus_pairs: "zip texts few_shots = map (\<lambda>ex. (example_text ex, ex)) few_shots"
  by (simp add: texts_eq zip_map1 zip_same_conv_map)

lemma select_examples_alt:
  "select_examples dist question =
     map snd (take k (sort_key (\<lambda>p. dist question (fst p)) (map (\<lambda>ex. (example_text ex, ex)) few_shots)))"
  by (simp add: select_examples_def corpus_pairs split_def)

lemma take_sort_key_nearest:
  "\<forall>a\<in>set (take n (sort_key f xs)). \<forall>b\<in>set (drop n (sort_key f xs)). f a \<le> f b"
proof -
  define ys where "ys = sort_key f xs"
  have "sorted (map f ys)" unfolding ys_def by (rule sorted_sort_key)
  then have "sorted (map f (take n ys) @ map f (drop n ys))"
    by (simp flip: map_append)
  then have "\<forall>x\<in>set (map f (take n ys)). \<forall>y\<in>set (map f (drop n ys)). x \<le> y"
    by (simp only: sorted_append) blast
  then show ?thesis unfolding ys_def by simp
qed

lemma sorted_take_sort_key: "sorted (map f (take n (sort_key f xs)))"
proof -
  have "sorted (take n (map f (sort_key f xs)))"
    using sorted_sort_key [of f xs] by (rule sorted_wrt_take)
  then show ?thesis by (simp add: take_map)
qed

text \<open>
  Claim C7. For every question and every distance the selector returns exactly 2
  examples, which is \<open>k\<close>; each of them is an entry of \<open>few_shots\<close>; they are in order of
  distance, closest first, and no entry left out is closer than an entry returned.
\<close>

theorem select_examples_nearest:
  "length (select_examples dist question) = 2 \<and>
   length (select_examples dist question) \<le> k \<and>
   set (select_examples dist question) \<subseteq> set few_shots \<and>
   sorted (map (\<lambda>ex. dist question (example_text ex)) (select_examples dist question)) \<and>
   (\<forall>s\<in>set (select_examples dist question).
      \<forall>ex\<in>set few_shots - set (select_examples dist question).
        dist question (example_text s) \<le> dist question (example_text ex))"
proof -
  define f where "f = (\<lambda>p :: str \<times> example. dist question (fst p))"
  define ps where "ps = map (\<lambda>ex. (example_text ex, ex)) few_shots"
  define xs where "xs = sort_key f ps"
  have sel: "select_examples dist question = map snd (take k xs)"
    unfolding xs_def f_def ps_def by (rule select_examples_alt)
  have set_xs: "set xs = set ps" unfolding xs_def by simp
  have in_ps: "p \<in> set ps \<longleftrightarrow> snd p \<in> set few_shots \<and> fst p = example_text (snd p)" for p
    unfolding ps_def by (cases p) auto
  have len_xs: "length xs = 10"
    unfolding xs_def ps_def by (simp add: length_few_shots)
  have len: "length (select_examples dist question) = 2"
    by (simp add: sel k_def len_xs)
  have taken: "p \<in> set ps" if "p \<in> set (take k xs)" for p
    using that set_xs by (blast dest: in_set_takeD)
  have sub: "set (select_examples dist question) \<subseteq> set few_shots"
  proof
    fix ex assume "ex \<in> set (select_examples dist question)"
    then obtain p where p: "p \<in> set (take k xs)" "ex = snd p"
      unfolding sel by auto
    from taken [OF p(1)] p(2) show "ex \<in> set few_shots" by (simp add: in_ps)
  qed
  have key: "dist question (example_text (snd p)) = f p" if "p \<in> set (take k xs)" for p
    using taken [OF that] by (simp add: in_ps f_def)
  have "map (\<lambda>ex. dist question (example_text ex)) (select_examples dist question) =
      map (\<lambda>p. dist question (example_text (snd p))) (take k xs)"
    by (simp add: sel comp_def)
  also have "\<dots> = map f (take k xs)"
    by (rule map_cong) (simp_all add: key)
  finally have keys: "map (\<lambda>ex. dist question (example_text ex)) (select_examples dist question) =
      map f (take k xs)" .
  have srt: "sorted (map (\<lambda>ex. dist question (example_text ex)) (select_examples dist question))"
    unfolding keys xs_def by (rule sorted_take_sort_key)
  have near: "\<forall>s\<in>set (select_examples dist question).
      \<forall>ex\<in>set few_shots - set (select_examples dist question).
        dist question (example_text s) \<le> dist question (example_text ex)"
  proof (intro ballI)
    fix s ex
    assume s: "s \<in> set (select_examples dist question)"
      and ex: "ex \<in> set few_shots - set (select_examples dist question)"
    from s obtain a where a: "a \<in> set (take k xs)" "s = snd a"
      unfolding sel by auto
    define b where "b = (example_text ex, ex)"
    from ex have "b \<in> set ps" by (simp add: in_ps b_def)
    then have "b \<in> set (take k xs @ drop k xs)" using set_xs by simp
    moreover have "b \<notin> set (take k xs)"
    proof
      assume "b \<in> set (take k xs)"
      then have "snd b \<in> set (select_examples dist question)"
        unfolding sel by (simp only: set_map) (rule imageI)
      with ex show False by (simp add: b_def)
    qed
    ultimately have "b \<in> set (drop k xs)" by (simp only: set_append Un_iff) blast
    with a(1) take_sort_key_nearest [of k f ps] have "f a \<le> f b"
      unfolding xs_def by blast
    moreover have "f a = dist question (example_text s)" using key [OF a(1)] a(2) by simp
    moreover have "f b = dist question (example_text ex)" by (simp add: f_def b_def)
    ultimately show "dist question (example_text s) \<le> dist question (example_text ex)" by simp
  qed
  from len sub srt near show ?thesis by (simp add: k_def)
qed

theorem select_examples_nearest_witness:
  "length (select_examples text_length (u ''How many copies of '1984' do we have in stock?'')) = 2 \<and>
   set (select_examples text_length (u ''How many copies of '1984' do we have in stock?'')) \<subseteq> set few_shots \<and>
   sorted (map (\<lambda>ex. text_length (u ''How many copies of '1984' do we have in stock?'') (example_text ex))
     (select_examples text_length (u ''How many copies of '1984' do we have in stock?'')))"
  using select_examples_nearest [of text_length "u ''How many copies of '1984' do we have in stock?''"]
  by blast

lemma join_snoc: "ps \<noteq> [] \<Longrightarrow> join sep (ps @ [p]) = join sep ps @ sep @ p"
  by (induction sep ps rule: join.induct) auto

lemma example_prompt_not_Nil: "example_prompt ex \<noteq> []"
  by (simp add: example_prompt_def u_def)

lemma prefix_text_not_Nil: "prefix_text \<noteq> []"
  by (simp add: prefix_text_def u_def)

lemma format_verbatim:
  "pre \<noteq> [] \<Longrightarrow>
   FewShotPromptTemplate_format pre sep examples question =
     join sep (pre # map example_prompt examples) @ sep @
     [NL] @ u ''Question: '' @ question @ [NL] @ u ''SQL:''"
proof -
  assume "pre \<noteq> []"
  then have "filter (\<lambda>piece. piece \<noteq> []) (pre # map example_prompt examples @ [suffix_text question]) =
      (pre # map example_prompt examples) @ [suffix_text question]"
    by (simp add: example_prompt_not_Nil suffix_text_def)
  then show ?thesis
    by (simp add: FewShotPromptTemplate_format_def join_snoc suffix_text_def del: append_Cons)
qed

text \<open>
  Claim C8. Two runs that select the same examples for the same question send the same
  request, whatever the chat service does, and the prompt is the prefix and the rendered
  examples joined by the separator, followed by the separator and the suffix, in which
  the question stands as it was given.
\<close>

theorem prompt_depends_on_examples_and_question:
  assumes "select_examples dist1 question = select_examples dist2 question"
  shows "snd (generate_sql dist1 chat1 question) = snd (generate_sql dist2 chat2 question) \<and>
         prompt_format dist1 question = prompt_format dist2 question \<and>
         prompt_format dist1 question =
           join example_separator (prefix_text # map example_prompt (select_examples dist1 question)) @
           example_separator @ [NL] @ u ''Question: '' @ question @ [NL] @ u ''SQL:''"
proof -
  from assms have "prompt_format dist1 question = prompt_format dist2 question"
    by (simp add: prompt_format_def)
  then show ?thesis
    by (simp add: snd_generate_sql prompt_format_def format_verbatim [OF prefix_text_not_Nil])
qed

theorem prompt_depends_on_examples_and_question_witness:
  "select_examples text_length (u ''How many {copies}?'') = select_examples text_length (u ''How many {copies}?'') \<and>
   snd (generate_sql text_length (canned_reply reply_with_label) (u ''How many {copies}?'')) =
     snd (generate_sql text_length (failing_service (OtherError (u ''Rate limit reached''))) (u ''How many {copies}?'')) \<and>
   prompt_format text_length (u ''How many {copies}?'') =
     join example_separator (prefix_text # map example_prompt (select_examples text_length (u ''How many {copies}?''))) @
     example_separator @ [NL] @ u ''Question: '' @ u ''How many {copies}?'' @ [NL] @ u ''SQL:''"
  using prompt_depends_on_examples_and_question
    [of text_length "u ''How many {copies}?''" text_length "canned_reply reply_with_label"
       "failing_service (OtherError (u ''Rate limit reached''))"]
  by simp

section \<open>Properties of execute\_sql\_query\<close>

lemmas exec_eval =
  execute_sql_query_def try_body_def pd_DataFrame_def finally_block_def healthy_def opened_def released_def
  cleanup_completes_def Let_def

lemma outcome_execute_sql_query:
  "outcome (execute_sql_query d query) =
     (case fst (finally_block d (snd (try_body d query))) of
        Some e \<Rightarrow> Inl e
      | None \<Rightarrow> except_Error (fst (try_body d query)))"
  by (simp add: execute_sql_query_def Let_def case_prod_beta)

lemma driver_calls_execute_sql_query:
  "driver_calls (execute_sql_query d query) =
     calls (snd (try_body d query)) @ snd (finally_block d (snd (try_body d query)))"
  by (simp add: execute_sql_query_def Let_def case_prod_beta)

lemma except_Error_Inr [simp]: "except_Error r = Inr v \<longleftrightarrow> r = Inr v"
  by (cases r rule: except_Error.cases) auto

lemma returns_Inr [simp]: "returns r = Inr v \<longleftrightarrow> (\<exists>x. r = Inr x \<and> v = Some x)"
  by (cases r) auto

lemma returns_Inl [simp]: "returns r = Inl e \<longleftrightarrow> r = Inl e"
  by (cases r) auto

lemma pd_DataFrame_data: "pd_DataFrame rows cols = Inr df \<Longrightarrow> data df = rows"
  by (auto simp: pd_DataFrame_def split: option.splits if_splits)

lemma fst_try_body_None:
  "fst (try_body d query) = Inr None \<longleftrightarrow> connect d = None \<and> \<not> is_connected_try d"
  by (auto simp: try_body_def split: option.splits sum.splits)

lemma snd_try_body_not_connected:
  "connect d = None \<Longrightarrow> \<not> is_connected_try d \<Longrightarrow>
   snd (try_body d query) =
     \<lparr>connection_bound = True, cursor_bound = False, calls = [Connect, IsConnected]\<rparr>"
  by (simp add: try_body_def)

lemma snd_try_body_executed:
  "connect d = None \<Longrightarrow> is_connected_try d \<Longrightarrow> cursor d = None \<Longrightarrow>
   connection_bound (snd (try_body d query)) \<and> cursor_bound (snd (try_body d query))"
  by (simp add: try_body_def split: option.splits sum.splits)

lemma finally_block_completes:
  "cleanup_completes d \<Longrightarrow> connection_bound fr \<longrightarrow> cursor_bound fr \<Longrightarrow>
   fst (finally_block d fr) = None"
  by (simp add: finally_block_def cleanup_completes_def split: if_splits)

lemma fst_try_body_fetched:
  "connect d = None \<Longrightarrow> is_connected_try d \<Longrightarrow> cursor d = None \<Longrightarrow> execute d = None \<Longrightarrow>
   fetchall d = Inr rows \<Longrightarrow>
   fst (try_body d query) =
     returns (pd_DataFrame rows
       (case description d of
          None \<Rightarrow> None
        | Some desc \<Rightarrow> if desc = [] then None else Some (map fst desc)))"
  by (simp add: try_body_def split: option.splits)

lemma width_const:
  "rows \<noteq> [] \<Longrightarrow> \<forall>r\<in>set rows. length r = n \<Longrightarrow> foldr max (map length rows) 0 = n"
proof (induction rows)
  case Nil
  then show ?case by simp
next
  case (Cons a rows)
  show ?case
  proof (cases "rows = []")
    case True
    with Cons.prems show ?thesis by simp
  next
    case False
    with Cons have "foldr max (map length rows) 0 = n" by simp
    with Cons.prems show ?thesis by simp
  qed
qed

lemma pd_DataFrame_fits:
  assumes "case desc of None \<Rightarrow> rows = [] | Some ds \<Rightarrow> \<forall>r\<in>set rows. length r = length ds"
  shows "pd_DataFrame rows (case desc of None \<Rightarrow> None | Some ds \<Rightarrow> if ds = [] then None else Some (map fst ds)) =
         Inr (DataFrame rows (case desc of None \<Rightarrow> None | Some ds \<Rightarrow> if ds = [] then None else Some (map fst ds)))"
proof (cases desc)
  case None
  then show ?thesis by (simp add: pd_DataFrame_def)
next
  case (Some ds)
  show ?thesis
  proof (cases "ds = [] \<or> rows = []")
    case True
    with Some show ?thesis by (auto simp: pd_DataFrame_def)
  next
    case False
    with Some assms have "foldr max (map length rows) 0 = length ds"
      by (simp add: width_const)
    with Some False show ?thesis by (simp add: pd_DataFrame_def)
  qed
qed

lemma width_zero: "\<forall>r\<in>set rows. length r = 0 \<Longrightarrow> foldr max (map length rows) 0 = 0"
  by (induction rows) auto

lemma calls_try_body:
  "calls (snd (try_body d query)) \<in>
     {[Connect], [Connect, IsConnected], [Connect, IsConnected, Cursor],
      [Connect, IsConnected, Cursor, Execute query],
      [Connect, IsConnected, Cursor, Execute query, Fetchall]}"
  by (simp add: try_body_def split: option.splits sum.splits)

lemma calls_finally_block:
  "snd (finally_block d fr) \<in>
     {[], [IsConnected], [IsConnected, CursorClose], [IsConnected, CursorClose, ConnectionClose]}"
  by (simp add: finally_block_def split: option.splits)

lemma no_retry:
  "count_list (driver_calls (execute_sql_query d query)) Connect = 1 \<and>
   count_list (driver_calls (execute_sql_query d query)) (Execute query) \<le> 1"
  using calls_try_body [of d query] calls_finally_block [of d "snd (try_body d query)"]
  by (auto simp: driver_calls_execute_sql_query)

lemma returned_table_is_complete:
  "outcome (execute_sql_query d query) = Inr (Some df) \<Longrightarrow> fetchall d = Inr (data df)"
  by (auto simp: outcome_execute_sql_query try_body_def dest: pd_DataFrame_data
      split: option.splits sum.splits if_splits)

lemma rewrapped_unless_cleanup_raises:
  "fst (try_body d query) = Inl (Error msg) \<Longrightarrow>
   fst (finally_block d (snd (try_body d query))) = None \<Longrightarrow>
   outcome (execute_sql_query d query) = Inl (Exception (u ''Database Error: '' @ msg))"
  by (simp add: outcome_execute_sql_query)

lemma propagates_unless_cleanup_raises:
  "fst (try_body d query) = Inl e \<Longrightarrow> \<forall>msg. e \<noteq> Error msg \<Longrightarrow>
   fst (finally_block d (snd (try_body d query))) = None \<Longrightarrow>
   outcome (execute_sql_query d query) = Inl e"
  by (cases e) (simp_all add: outcome_execute_sql_query)

lemma table_construction_raises:
  "outcome (execute_sql_query wide_rows (u ''SELECT title FROM books'')) =
     Inl (OtherError (u ''1 columns passed, passed data had 2 columns''))"
  by (simp add: wide_rows_def exec_eval decimal.simps u_def)

lemma released_iff:
  assumes "opened d"
  shows "released d (execute_sql_query d query) \<longleftrightarrow>
           \<not> is_connected_finally d \<or>
           (is_connected_try d \<and> cursor d = None \<and> cursor_close d = None \<and> connection_close d = None)"
  using assms
  by (auto simp: opened_def released_def driver_calls_execute_sql_query try_body_def finally_block_def
      split: option.splits sum.splits if_splits)

text \<open>
  Claim C2, as stated, fails: when \<^verbatim>\<open>connect\<close> returns a connection that reports
  not to be connected, the body is skipped and the call returns \<^verbatim>\<open>None\<close>.
\<close>

theorem execute_sql_query_returns_None_counterexample:
  "outcome (execute_sql_query not_connected (u ''SELECT title FROM books'')) = Inr None"
  by (simp add: not_connected_def exec_eval)

text \<open>
  Claim C2, amended. A call returns a table, raises, or returns \<^verbatim>\<open>None\<close>; it returns
  \<^verbatim>\<open>None\<close> exactly when \<^verbatim>\<open>connect\<close> returned a connection that reports not to be
  connected, at line 132 and in the \<^verbatim>\<open>finally\<close> block.
\<close>

theorem execute_sql_query_outcomes:
  "((\<exists>df. outcome (execute_sql_query d query) = Inr (Some df)) \<or>
    (\<exists>e. outcome (execute_sql_query d query) = Inl e) \<or>
    outcome (execute_sql_query d query) = Inr None) \<and>
   (outcome (execute_sql_query d query) = Inr None \<longleftrightarrow>
      connect d = None \<and> \<not> is_connected_try d \<and> \<not> is_connected_finally d)"
proof
  show "(\<exists>df. outcome (execute_sql_query d query) = Inr (Some df)) \<or>
    (\<exists>e. outcome (execute_sql_query d query) = Inl e) \<or>
    outcome (execute_sql_query d query) = Inr None"
  proof (cases "outcome (execute_sql_query d query)")
    case (Inl e)
    then show ?thesis by simp
  next
    case (Inr v)
    then show ?thesis by (cases v) simp_all
  qed
next
  show "outcome (execute_sql_query d query) = Inr None \<longleftrightarrow>
      connect d = None \<and> \<not> is_connected_try d \<and> \<not> is_connected_finally d"
  proof
    assume n: "outcome (execute_sql_query d query) = Inr None"
    then have f: "fst (finally_block d (snd (try_body d query))) = None"
      and "except_Error (fst (try_body d query)) = Inr None"
      by (auto simp: outcome_execute_sql_query split: option.splits)
    then have c: "connect d = None" "\<not> is_connected_try d"
      by (simp_all add: fst_try_body_None)
    from f snd_try_body_not_connected [OF c] have "\<not> is_connected_finally d"
      by (auto simp: finally_block_def split: if_splits)
    with c show "connect d = None \<and> \<not> is_connected_try d \<and> \<not> is_connected_finally d"
      by simp
  next
    assume a: "connect d = None \<and> \<not> is_connected_try d \<and> \<not> is_connected_finally d"
    then have "fst (try_body d query) = Inr None"
      by (simp add: fst_try_body_None)
    moreover from a have "fst (finally_block d (snd (try_body d query))) = None"
      by (simp add: snd_try_body_not_connected finally_block_def)
    ultimately show "outcome (execute_sql_query d query) = Inr None"
      by (simp add: outcome_execute_sql_query)
  qed
qed

theorem execute_sql_query_outcomes_witness:
  "outcome (execute_sql_query not_connected (u ''SELECT title FROM books'')) = Inr None \<and>
   connect not_connected = None \<and> \<not> is_connected_try not_connected \<and>
   \<not> is_connected_finally not_connected"
  using execute_sql_query_outcomes [of not_connected "u ''SELECT title FROM books''"]
  by (simp add: not_connected_def healthy_def)

text \<open>
  Claim C4. When every driver operation returns, and the rows fetched fit the
  description of the cursor (one value for each column described; no rows when there is
  no description), the call returns a table that holds all the rows fetched, under the
  column names of the description, and without headers when the description is null.
\<close>

theorem execute_sql_query_table:
  assumes "connect d = None" and "is_connected_try d" and "cursor d = None"
      and "execute d = None" and "fetchall d = Inr rows" and "cleanup_completes d"
      and "case description d of None \<Rightarrow> rows = [] | Some desc \<Rightarrow> \<forall>r\<in>set rows. length r = length desc"
  shows "\<exists>df. outcome (execute_sql_query d query) = Inr (Some df) \<and>
              data df = rows \<and>
              labels df = (case description d of None \<Rightarrow> [] | Some desc \<Rightarrow> map (\<lambda>c. Name (fst c)) desc)"
proof -
  let ?df = "DataFrame rows
       (case description d of
          None \<Rightarrow> None
        | Some desc \<Rightarrow> if desc = [] then None else Some (map fst desc))"
  from snd_try_body_executed [OF assms(1-3)] assms(6)
  have "fst (finally_block d (snd (try_body d query))) = None"
    by (simp add: finally_block_completes)
  with fst_try_body_fetched [OF assms(1-5)] pd_DataFrame_fits [OF assms(7)]
  have o: "outcome (execute_sql_query d query) = Inr (Some ?df)"
    by (simp add: outcome_execute_sql_query)
  have "labels ?df = (case description d of None \<Rightarrow> [] | Some desc \<Rightarrow> map (\<lambda>c. Name (fst c)) desc)"
  proof (cases "description d")
    case None
    with assms(7) show ?thesis by (simp add: labels_def)
  next
    case (Some desc)
    with assms(7) show ?thesis by (cases "desc = []") (simp_all add: labels_def width_zero)
  qed
  with o show ?thesis by simp
qed

theorem execute_sql_query_table_witness:
  "outcome (execute_sql_query mystery_titles (u ''SELECT title FROM books'')) =
     Inr (Some (DataFrame [[u ''Gone Girl''], [u ''The Hound of the Baskervilles'']] (Some [u ''title'']))) \<and>
   (\<exists>df. outcome (execute_sql_query no_matching_rows (u ''SELECT title FROM books'')) = Inr (Some df) \<and>
      data df = [] \<and> labels df = [Name (u ''title'')]) \<and>
   (\<exists>df. outcome (execute_sql_query (healthy ([] :: nat list list) None) (u ''SET NAMES utf8'')) = Inr (Some df) \<and>
      data df = [] \<and> labels df = [])"
proof -
  have "outcome (execute_sql_query mystery_titles (u ''SELECT title FROM books'')) =
     Inr (Some (DataFrame [[u ''Gone Girl''], [u ''The Hound of the Baskervilles'']] (Some [u ''title''])))"
    by (simp add: mystery_titles_def exec_eval)
  moreover have "\<exists>df. outcome (execute_sql_query no_matching_rows (u ''SELECT title FROM books'')) = Inr (Some df) \<and>
      data df = [] \<and> labels df = [Name (u ''title'')]"
    using execute_sql_query_table [of no_matching_rows "[]" "u ''SELECT title FROM books''"]
    by (simp add: no_matching_rows_def healthy_def cleanup_completes_def)
  moreover have "\<exists>df. outcome (execute_sql_query (healthy ([] :: nat list list) None) (u ''SET NAMES utf8'')) = Inr (Some df) \<and>
      data df = [] \<and> labels df = []"
    using execute_sql_query_table [of "healthy ([] :: nat list list) None" "[]" "u ''SET NAMES utf8''"]
    by (simp add: healthy_def cleanup_completes_def)
  ultimately show ?thesis by blast
qed

text \<open>
  Claim C5 at its failing inputs. When \<^verbatim>\<open>connection.cursor()\<close> raises on a connection
  that stays connected, the \<^verbatim>\<open>finally\<close> block reads the unbound variable
  \<^verbatim>\<open>cursor\<close>: the call ends with \<^verbatim>\<open>UnboundLocalError\<close> and
  \<^verbatim>\<open>connection.close()\<close> is never called. When \<^verbatim>\<open>cursor.close()\<close> raises, the
  call ends with that exception and \<^verbatim>\<open>connection.close()\<close> is never called either.
\<close>

theorem connection_left_open:
  "opened cursor_fails \<and>
   outcome (execute_sql_query cursor_fails (u ''SELECT title FROM books'')) =
     Inl (UnboundLocalError ''cursor'') \<and>
   ConnectionClose \<notin> set (driver_calls (execute_sql_query cursor_fails (u ''SELECT title FROM books''))) \<and>
   \<not> released cursor_fails (execute_sql_query cursor_fails (u ''SELECT title FROM books'')) \<and>
   opened cursor_close_fails \<and>
   outcome (execute_sql_query cursor_close_fails (u ''SELECT 1; SELECT 2'')) =
     Inl (Error (u ''Unread result found'')) \<and>
   ConnectionClose \<notin> set (driver_calls (execute_sql_query cursor_close_fails (u ''SELECT 1; SELECT 2''))) \<and>
   \<not> released cursor_close_fails (execute_sql_query cursor_close_fails (u ''SELECT 1; SELECT 2''))"
  by (simp add: cursor_fails_def cursor_close_fails_def exec_eval)

text \<open>
  Claim C6 at its failing inputs. A database error raised by \<^verbatim>\<open>cursor.execute\<close> is
  caught and raised again as \<^verbatim>\<open>Database Error: ...\<close>, but when \<^verbatim>\<open>cursor.close()\<close>
  then raises in the \<^verbatim>\<open>finally\<close> block, the caller gets that exception and not the
  one with the text of the database error. A database error raised by
  \<^verbatim>\<open>connection.cursor()\<close> on a connection that stays connected ends in
  \<^verbatim>\<open>UnboundLocalError\<close>.
\<close>

theorem database_error_replaced_in_finally:
  "execute cursor_close_fails = Some (Error (u ''Use multi=True when executing multiple statements'')) \<and>
   outcome (execute_sql_query cursor_close_fails (u ''SELECT 1; SELECT 2'')) =
     Inl (Error (u ''Unread result found'')) \<and>
   outcome (execute_sql_query cursor_close_fails (u ''SELECT 1; SELECT 2'')) \<noteq>
     Inl (Exception (u ''Database Error: Use multi=True when executing multiple statements'')) \<and>
   cursor cursor_fails = Some (Error (u ''MySQL Connection not available.'')) \<and>
   outcome (execute_sql_query cursor_fails (u ''SELECT title FROM books'')) =
     Inl (UnboundLocalError ''cursor'')"
  by (simp add: cursor_fails_def cursor_close_fails_def exec_eval)

text \<open>
  Claim C10 at its failing inputs. An exception that is not a database error, raised by
  \<^verbatim>\<open>cursor.fetchall\<close> or by \<^verbatim>\<open>cursor.execute\<close>, is not caught; but when
  \<^verbatim>\<open>cursor.close()\<close> then raises in the \<^verbatim>\<open>finally\<close> block, the caller gets that
  exception in its place.
\<close>

theorem other_exception_replaced_in_finally:
  "fetchall fetch_interrupted = Inl (OtherError (u ''MemoryError'')) \<and>
   outcome (execute_sql_query fetch_interrupted (u ''SELECT * FROM books'')) =
     Inl (Error (u ''Unread result found'')) \<and>
   execute execute_interrupted = Some (OtherError (u ''KeyError'')) \<and>
   outcome (execute_sql_query execute_interrupted (u ''SELECT * FROM books'')) =
     Inl (Error (u ''Unread result found''))"
  by (simp add: fetch_interrupted_def execute_interrupted_def exec_eval)

section \<open>Properties of the query history\<close>

lemma run_cases:
  "run h (question, g) =
     (case g of
        Inl e \<Rightarrow> h
      | Inr sql \<Rightarrow> if question = [] \<or> question \<in> fst ` set h then h else h @ [(question, sql)])"
  by (auto simp: run_def update_history_def Let_def split: sum.splits)

lemma foldl_run:
  "foldl run h rs = h @ first_per_question (filter (\<lambda>p. fst p \<notin> fst ` set h) (successful rs))"
proof (induction rs arbitrary: h rule: successful.induct)
  case 1
  then show ?case by simp
next
  case (2 question e rs)
  then show ?case by (simp add: run_cases)
next
  case (3 question sql rs)
  show ?case
  proof (cases "question = [] \<or> question \<in> fst ` set h")
    case True
    with 3 show ?thesis by (auto simp: run_cases)
  next
    case False
    then have r: "run h (question, Inr sql) = h @ [(question, sql)]"
      by (simp add: run_cases)
    have f: "filter (\<lambda>p. fst p \<notin> fst ` set (h @ [(question, sql)])) xs =
        filter (\<lambda>q. fst q \<noteq> question) (filter (\<lambda>p. fst p \<notin> fst ` set h) xs)" for xs
      by (induction xs) auto
    from False have ne: "question \<noteq> []" by simp
    have "foldl run h ((question, Inr sql) # rs) = foldl run (h @ [(question, sql)]) rs"
      by (simp add: r)
    also have "\<dots> = (h @ [(question, sql)]) @
        first_per_question (filter (\<lambda>p. fst p \<notin> fst ` set (h @ [(question, sql)])) (successful rs))"
      by (rule "3.IH"(2) [OF ne])
    also have "\<dots> = h @ (question, sql) #
        first_per_question (filter (\<lambda>q. fst q \<noteq> question)
          (filter (\<lambda>p. fst p \<notin> fst ` set h) (successful rs)))"
      by (simp only: f) simp
    also have "\<dots> = h @ first_per_question
        (filter (\<lambda>p. fst p \<notin> fst ` set h) (successful ((question, Inr sql) # rs)))"
      using False by simp
    finally show ?thesis .
  qed
qed

lemma session_eq: "session rs = first_per_question (successful rs)"
  by (simp add: session_def foldl_run)

lemma set_first_per_question: "set (first_per_question ps) \<subseteq> set ps"
  by (induction ps rule: first_per_question.induct) auto

lemma distinct_first_per_question: "distinct (map fst (first_per_question ps))"
proof (induction ps rule: first_per_question.induct)
  case 1
  then show ?case by simp
next
  case (2 p ps)
  have "fst p \<notin> fst ` set (first_per_question (filter (\<lambda>q. fst q \<noteq> fst p) ps))"
    using set_first_per_question [of "filter (\<lambda>q. fst q \<noteq> fst p) ps"] by auto
  with 2 show ?case by simp
qed

lemma shown_take: "shown h = take 5 (rev h)"
  by (simp add: shown_def take_rev)

lemma session_six: "session six_questions =
     [(u ''q1'', u ''SELECT 1''), (u ''q2'', u ''SELECT 2''), (u ''q3'', u ''SELECT 3''),
      (u ''q4'', u ''SELECT 4''), (u ''q5'', u ''SELECT 5''), (u ''q6'', u ''SELECT 6'')]"
  by (simp add: session_def six_questions_def run_cases u_def)

text \<open>
  Claim C9, as stated, fails: the history keeps every question. After six different
  questions it has six entries, and when the first question is asked again it is still
  present, so it is not added and the page does not show it.
\<close>

theorem history_keeps_every_question_counterexample:
  "length (session six_questions) = 6 \<and>
   map fst (shown (session (six_questions @ [(u ''q1'', Inr (u ''SELECT 7''))]))) =
     [u ''q6'', u ''q5'', u ''q4'', u ''q3'', u ''q2'']"
proof -
  have "run (session six_questions) (u ''q1'', Inr (u ''SELECT 7'')) = session six_questions"
    by (simp add: session_six run_cases)
  then have "session (six_questions @ [(u ''q1'', Inr (u ''SELECT 7''))]) = session six_questions"
    by (simp add: session_def)
  then show ?thesis by (simp add: session_six shown_def)
qed

text \<open>
  Claim C9, amended. The history holds, for every question that got a query, the pair
  of the question and the query of its first successful run, in the order of these runs
  and without a second entry for any question; the page shows the last 5 entries of it,
  most recent first. A question already in the history is not added again.
\<close>

theorem history_shows_last_five_added:
  "session rs = first_per_question (successful rs) \<and>
   distinct (map fst (session rs)) \<and>
   shown (session rs) = take 5 (rev (session rs)) \<and>
   length (shown (session rs)) \<le> 5 \<and>
   (question \<in> fst ` set (session rs) \<longrightarrow> session (rs @ [(question, g)]) = session rs)"
proof (intro conjI impI)
  show "session rs = first_per_question (successful rs)" by (rule session_eq)
  show "distinct (map fst (session rs))"
    by (simp only: session_eq distinct_first_per_question)
  show "shown (session rs) = take 5 (rev (session rs))" by (rule shown_take)
  show "length (shown (session rs)) \<le> 5" by (simp add: shown_take)
next
  assume "question \<in> fst ` set (session rs)"
  then have "run (session rs) (question, g) = session rs"
    by (simp add: run_cases split: sum.splits)
  then show "session (rs @ [(question, g)]) = session rs"
    by (simp add: session_def)
qed

theorem history_shows_last_five_added_witness:
  "u ''q1'' \<in> fst ` set (session six_questions) \<and>
   session (six_questions @ [(u ''q1'', Inr (u ''SELECT 7''))]) = session six_questions \<and>
   shown (session six_questions) =
     [(u ''q6'', u ''SELECT 6''), (u ''q5'', u ''SELECT 5''), (u ''q4'', u ''SELECT 4''),
      (u ''q3'', u ''SELECT 3''), (u ''q2'', u ''SELECT 2'')]"
proof -
  have m: "u ''q1'' \<in> fst ` set (session six_questions)"
    by (simp add: session_six)
  from history_shows_last_five_added [of six_questions "u ''q1''" "Inr (u ''SELECT 7'')"]
  have a: "shown (session six_questions) = take 5 (rev (session six_questions))"
    and b: "u ''q1'' \<in> fst ` set (session six_questions) \<longrightarrow>
      session (six_questions @ [(u ''q1'', Inr (u ''SELECT 7''))]) = session six_questions"
    by blast+
  from a have "shown (session six_questions) =
     [(u ''q6'', u ''SELECT 6''), (u ''q5'', u ''SELECT 5''), (u ''q4'', u ''SELECT 4''),
      (u ''q3'', u ''SELECT 3''), (u ''q2'', u ''SELECT 2'')]"
    by (simp add: session_six)
  with m b show ?thesis by blast
qed

end
